theory Spec2Isabelle
  imports Complex_Main "HOL-Library.Sublist"
begin

section \<open>JavaScript values\<close>

text \<open>
  The TypeScript workflow engine (class \<^verbatim>\<open>WorkflowEngine\<close>) and its
  operator library (\<^verbatim>\<open>src/operators.ts\<close>) compute on untyped JavaScript values.
  A Number is one of the special values of IEEE arithmetic or a finite value; finite
  values are kept as exact rationals (the rounding of binary64 is not modelled), the
  two zeros are kept apart because division tells them apart.
\<close>

datatype jsnum = NaN | PosInf | NegInf | NegZero | Fin rat

datatype jsval =
    VUndefined
  | VNull
  | VBool bool
  | VNum jsnum
  | VStr string
  | VArr "jsval list"
  | VObj "(string \<times> jsval) list"
  | VDate int

text \<open>
  A dictionary object (\<^verbatim>\<open>Record<string, any>\<close>) is a map from property names to
  values. Reading a property that is not there gives \<^verbatim>\<open>undefined\<close>. Names that a
  plain object inherits from \<^verbatim>\<open>Object.prototype\<close> are outside this model.
\<close>

type_synonym dict = "string \<rightharpoonup> jsval"

definition get :: "dict \<Rightarrow> string \<Rightarrow> jsval" where
  "get m k = (case m k of None \<Rightarrow> VUndefined | Some v \<Rightarrow> v)"

text \<open>
  What the host (the JavaScript runtime) and the parts of the operator library that are
  not modelled here provide: conversions between strings and numbers, regular
  expressions, object identity, the \<^verbatim>\<open>Math\<close> object, the clock, and the string, array
  and date operations of \<^verbatim>\<open>operators.ts\<close>. A thrown exception is \<open>Inl\<close> of its message.
\<close>

record env =
  str2num :: "string \<Rightarrow> jsnum"
  num2str :: "jsnum \<Rightarrow> string"
  date2str :: "int \<Rightarrow> string"
  regexTest :: "string \<Rightarrow> string \<Rightarrow> string + bool"
  sameObject :: "jsval \<Rightarrow> jsval \<Rightarrow> bool"
  jsonStringify :: "jsval \<Rightarrow> string"
  now :: int
  hostMath :: "string \<Rightarrow> jsnum list \<Rightarrow> jsnum"
  executeStringOperation :: "string \<Rightarrow> dict \<Rightarrow> string + jsval"
  executeArrayOperation :: "string \<Rightarrow> dict \<Rightarrow> string + jsval"
  executeDateOperation :: "string \<Rightarrow> dict \<Rightarrow> string + jsval"

subsection \<open>Conversions\<close>

fun truthy :: "jsval \<Rightarrow> bool" where
  "truthy VUndefined = False"
| "truthy VNull = False"
| "truthy (VBool b) = b"
| "truthy (VNum n) = (n \<noteq> NaN \<and> n \<noteq> NegZero \<and> n \<noteq> Fin 0)"
| "truthy (VStr s) = (s \<noteq> [])"
| "truthy (VArr xs) = True"
| "truthy (VObj kvs) = True"
| "truthy (VDate t) = True"

fun joinWith :: "string \<Rightarrow> string list \<Rightarrow> string" where
  "joinWith sep [] = []"
| "joinWith sep [x] = x"
| "joinWith sep (x # y # ys) = x @ sep @ joinWith sep (y # ys)"

fun toStringJS :: "env \<Rightarrow> jsval \<Rightarrow> string" where
  "toStringJS E VUndefined = ''undefined''"
| "toStringJS E VNull = ''null''"
| "toStringJS E (VBool b) = (if b then ''true'' else ''false'')"
| "toStringJS E (VNum n) = num2str E n"
| "toStringJS E (VStr s) = s"
| "toStringJS E (VArr xs) =
     joinWith '','' (map (\<lambda>x. if x = VUndefined \<or> x = VNull then [] else toStringJS E x) xs)"
| "toStringJS E (VObj kvs) = ''[object Object]''"
| "toStringJS E (VDate t) = date2str E t"

fun toNumber :: "env \<Rightarrow> jsval \<Rightarrow> jsnum" where
  "toNumber E VUndefined = NaN"
| "toNumber E VNull = Fin 0"
| "toNumber E (VBool b) = (if b then Fin 1 else Fin 0)"
| "toNumber E (VNum n) = n"
| "toNumber E (VStr s) = str2num E s"
| "toNumber E (VArr xs) = str2num E (toStringJS E (VArr xs))"
| "toNumber E (VObj kvs) = str2num E (toStringJS E (VObj kvs))"
| "toNumber E (VDate t) = Fin (of_int t)"

subsection \<open>Comparison of numbers\<close>

fun rank :: "jsnum \<Rightarrow> int" where
  "rank NegInf = -1"
| "rank PosInf = 1"
| "rank _ = 0"

fun fval :: "jsnum \<Rightarrow> rat" where
  "fval (Fin r) = r"
| "fval _ = 0"

definition num_less :: "jsnum \<Rightarrow> jsnum \<Rightarrow> bool" where
  "num_less a b = (a \<noteq> NaN \<and> b \<noteq> NaN \<and>
     (rank a < rank b \<or> (rank a = rank b \<and> fval a < fval b)))"

definition num_le :: "jsnum \<Rightarrow> jsnum \<Rightarrow> bool" where
  "num_le a b = (a \<noteq> NaN \<and> b \<noteq> NaN \<and>
     (rank a < rank b \<or> (rank a = rank b \<and> fval a \<le> fval b)))"

definition num_eq :: "jsnum \<Rightarrow> jsnum \<Rightarrow> bool" where
  "num_eq a b = (a \<noteq> NaN \<and> b \<noteq> NaN \<and> rank a = rank b \<and> fval a = fval b)"

text \<open>The operator \<^verbatim>\<open>===\<close>: no conversion; operands of different types are unequal.\<close>

fun strictEquals :: "env \<Rightarrow> jsval \<Rightarrow> jsval \<Rightarrow> bool" where
  "strictEquals E VUndefined VUndefined = True"
| "strictEquals E VNull VNull = True"
| "strictEquals E (VBool a) (VBool b) = (a = b)"
| "strictEquals E (VNum a) (VNum b) = num_eq a b"
| "strictEquals E (VStr a) (VStr b) = (a = b)"
| "strictEquals E (VArr a) (VArr b) = sameObject E (VArr a) (VArr b)"
| "strictEquals E (VObj a) (VObj b) = sameObject E (VObj a) (VObj b)"
| "strictEquals E (VDate a) (VDate b) = sameObject E (VDate a) (VDate b)"
| "strictEquals E _ _ = False"

section \<open>Expression evaluator (operators.ts)\<close>

text \<open>
  \<^verbatim>\<open>resolveValue(value, context)\<close>: a string that starts with \<^verbatim>\<open>$\<close> names a
  variable; the variable's value is taken when it is not \<^verbatim>\<open>undefined\<close>, otherwise
  the string itself is returned.
\<close>

definition resolveValue :: "jsval \<Rightarrow> dict \<Rightarrow> jsval" where
  "resolveValue v context =
     (case v of
        VStr s \<Rightarrow>
          (if prefix ''$'' s then
             (let varName = drop 1 s in
              if get context varName \<noteq> VUndefined then get context varName else v)
           else v)
      | _ \<Rightarrow> v)"

record condition =
  leftOperand :: jsval
  operator :: string
  rightOperand :: jsval

definition evaluateCondition :: "env \<Rightarrow> condition \<Rightarrow> dict \<Rightarrow> string + bool" where
  "evaluateCondition E c context =
     (let left = resolveValue (leftOperand c) context;
          right = resolveValue (rightOperand c) context;
          opr = operator c
      in if opr = ''equals'' then Inr (strictEquals E left right)
         else if opr = ''notEquals'' then Inr (\<not> strictEquals E left right)
         else if opr = ''greaterThan'' then Inr (num_less (toNumber E right) (toNumber E left))
         else if opr = ''lessThan'' then Inr (num_less (toNumber E left) (toNumber E right))
         else if opr = ''greaterOrEqual'' then Inr (num_le (toNumber E right) (toNumber E left))
         else if opr = ''lessOrEqual'' then Inr (num_le (toNumber E left) (toNumber E right))
         else if opr = ''contains'' then Inr (sublist (toStringJS E right) (toStringJS E left))
         else if opr = ''startsWith'' then Inr (prefix (toStringJS E right) (toStringJS E left))
         else if opr = ''endsWith'' then Inr (suffix (toStringJS E right) (toStringJS E left))
         else if opr = ''matches'' then regexTest E (toStringJS E right) (toStringJS E left)
         else Inl (''Unknown comparison operator: '' @ opr))"

datatype boolexpr =
  BooleanExpression
    (etype: string)
    (eoperator: "string option")
    (operands: "boolexpr list option")
    (econdition: "condition option")
    (evalue: "jsval option")

text \<open>The results of a list of evaluations, or the first exception among them.\<close>

fun collect :: "(string + 'a) list \<Rightarrow> string + 'a list" where
  "collect [] = Inr []"
| "collect (Inl e # rs) = Inl e"
| "collect (Inr x # rs) = (case collect rs of Inl e \<Rightarrow> Inl e | Inr xs \<Rightarrow> Inr (x # xs))"

fun evaluateBooleanExpression :: "env \<Rightarrow> boolexpr \<Rightarrow> dict \<Rightarrow> string + bool" where
  "evaluateBooleanExpression E (BooleanExpression ty opr ops cond v) context =
     (if ty = ''value'' then Inr (truthy (case v of None \<Rightarrow> VUndefined | Some x \<Rightarrow> x))
      else
        (case (ty = ''condition'', cond) of
           (True, Some c) \<Rightarrow> evaluateCondition E c context
         | _ \<Rightarrow>
            (case (ty = ''operator'' \<and> opr \<noteq> Some [], opr, ops) of
               (True, Some bop, Some children) \<Rightarrow>
                 (case collect (map (\<lambda>op. evaluateBooleanExpression E op context) children) of
                    Inl e \<Rightarrow> Inl e
                  | Inr operandResults \<Rightarrow>
                      (if bop = ''AND'' then Inr (list_all (\<lambda>result. result) operandResults)
                       else if bop = ''OR'' then Inr (list_ex (\<lambda>result. result) operandResults)
                       else if bop = ''NOT'' then
                         Inr (case operandResults of [] \<Rightarrow> True | r # _ \<Rightarrow> \<not> r)
                       else if bop = ''XOR'' then
                         Inr (foldl (\<lambda>acc val. acc \<noteq> val) False operandResults)
                       else Inl (''Unknown boolean operator: '' @ bop)))
             | _ \<Rightarrow> Inr False)))"


section \<open>Math operations (operators.ts)\<close>

text \<open>
  The arithmetic operators of the language on Numbers, by the cases of the language
  definition: \<^verbatim>\<open>NaN\<close> is contagious, the sign of a zero or infinite result is the
  exclusive or of the operands' signs, a finite non-zero value divided by a zero is an
  infinity. No case throws.
\<close>

fun isNeg :: "jsnum \<Rightarrow> bool" where
  "isNeg NegInf = True"
| "isNeg NegZero = True"
| "isNeg (Fin r) = (r < 0)"
| "isNeg _ = False"

definition isInf :: "jsnum \<Rightarrow> bool" where
  "isInf n = (n = PosInf \<or> n = NegInf)"

definition isZero :: "jsnum \<Rightarrow> bool" where
  "isZero n = (n = NegZero \<or> n = Fin 0)"

definition signedInf :: "bool \<Rightarrow> jsnum" where
  "signedInf neg = (if neg then NegInf else PosInf)"

definition signedZero :: "bool \<Rightarrow> jsnum" where
  "signedZero neg = (if neg then NegZero else Fin 0)"

fun num_negate :: "jsnum \<Rightarrow> jsnum" where
  "num_negate NaN = NaN"
| "num_negate PosInf = NegInf"
| "num_negate NegInf = PosInf"
| "num_negate NegZero = Fin 0"
| "num_negate (Fin r) = (if r = 0 then NegZero else Fin (- r))"

definition num_add :: "jsnum \<Rightarrow> jsnum \<Rightarrow> jsnum" where
  "num_add x y =
     (if x = NaN \<or> y = NaN then NaN
      else if isInf x then (if isInf y \<and> x \<noteq> y then NaN else x)
      else if isInf y then y
      else if isZero x \<and> isZero y then signedZero (x = NegZero \<and> y = NegZero)
      else if isZero x then y
      else if isZero y then x
      else Fin (fval x + fval y))"

definition num_subtract :: "jsnum \<Rightarrow> jsnum \<Rightarrow> jsnum" where
  "num_subtract x y = num_add x (num_negate y)"

definition num_multiply :: "jsnum \<Rightarrow> jsnum \<Rightarrow> jsnum" where
  "num_multiply x y =
     (if x = NaN \<or> y = NaN then NaN
      else if isInf x \<or> isInf y then
        (if isZero x \<or> isZero y then NaN else signedInf (isNeg x \<noteq> isNeg y))
      else if isZero x \<or> isZero y then signedZero (isNeg x \<noteq> isNeg y)
      else Fin (fval x * fval y))"

definition num_divide :: "jsnum \<Rightarrow> jsnum \<Rightarrow> jsnum" where
  "num_divide x y =
     (if x = NaN \<or> y = NaN then NaN
      else if isInf x then (if isInf y then NaN else signedInf (isNeg x \<noteq> isNeg y))
      else if isInf y then signedZero (isNeg x \<noteq> isNeg y)
      else if isZero y then (if isZero x then NaN else signedInf (isNeg x \<noteq> isNeg y))
      else if isZero x then signedZero (isNeg x \<noteq> isNeg y)
      else Fin (fval x / fval y))"

definition truncate :: "rat \<Rightarrow> int" where
  "truncate q = (if 0 \<le> q then \<lfloor>q\<rfloor> else \<lceil>q\<rceil>)"

definition num_remainder :: "jsnum \<Rightarrow> jsnum \<Rightarrow> jsnum" where
  "num_remainder n d =
     (if n = NaN \<or> d = NaN \<or> isInf n \<or> isZero d then NaN
      else if isInf d then n
      else if isZero n then n
      else (let r = fval n - fval d * of_int (truncate (fval n / fval d))
            in if r = 0 then signedZero (isNeg n) else Fin r))"

text \<open>
  \<^verbatim>\<open>(values || [a, b]).map(Number)\<close>: the list of \<^verbatim>\<open>min\<close> and \<^verbatim>\<open>max\<close>. A truthy
  \<^verbatim>\<open>values\<close> that is not an array has no \<^verbatim>\<open>map\<close> method, and the call throws.
\<close>

definition numberList :: "env \<Rightarrow> jsval \<Rightarrow> jsval \<Rightarrow> jsval \<Rightarrow> string + jsnum list" where
  "numberList E values a b =
     (if truthy values then
        (case values of
           VArr xs \<Rightarrow> Inr (map (toNumber E) xs)
         | _ \<Rightarrow> Inl ''(values || [a, b]).map is not a function'')
      else Inr [toNumber E a, toNumber E b])"

definition executeMathOperation :: "env \<Rightarrow> string \<Rightarrow> dict \<Rightarrow> string + jsnum" where
  "executeMathOperation E operation inputs =
     (let a = get inputs ''a''; b = get inputs ''b'';
          val = get inputs ''value''; values = get inputs ''values''
      in if operation = ''add'' then Inr (num_add (toNumber E a) (toNumber E b))
         else if operation = ''subtract'' then Inr (num_subtract (toNumber E a) (toNumber E b))
         else if operation = ''multiply'' then Inr (num_multiply (toNumber E a) (toNumber E b))
         else if operation = ''divide'' then Inr (num_divide (toNumber E a) (toNumber E b))
         else if operation = ''modulo'' then Inr (num_remainder (toNumber E a) (toNumber E b))
         else if operation = ''power'' then Inr (hostMath E ''pow'' [toNumber E a, toNumber E b])
         else if operation = ''sqrt'' then Inr (hostMath E ''sqrt'' [toNumber E val])
         else if operation = ''abs'' then Inr (hostMath E ''abs'' [toNumber E val])
         else if operation = ''round'' then Inr (hostMath E ''round'' [toNumber E val])
         else if operation = ''floor'' then Inr (hostMath E ''floor'' [toNumber E val])
         else if operation = ''ceil'' then Inr (hostMath E ''ceil'' [toNumber E val])
         else if operation = ''min'' then
           (case numberList E values a b of Inl e \<Rightarrow> Inl e | Inr ns \<Rightarrow> Inr (hostMath E ''min'' ns))
         else if operation = ''max'' then
           (case numberList E values a b of Inl e \<Rightarrow> Inl e | Inr ns \<Rightarrow> Inr (hostMath E ''max'' ns))
         else if operation = ''random'' then
           Inr (num_add
                  (num_multiply (hostMath E ''random'' [])
                     (num_subtract (toNumber E b) (toNumber E a)))
                  (toNumber E a))
         else Inl (''Unknown math operation: '' @ operation))"

subsection \<open>The generic operator\<close>

record operatorConfig =
  operation :: string
  inputs :: dict
  output_var :: "string option"

definition mathOperations :: "string list" where
  "mathOperations = [''add'', ''subtract'', ''multiply'', ''divide'', ''modulo'', ''power'',
     ''sqrt'', ''abs'', ''round'', ''floor'', ''ceil'', ''min'', ''max'', ''random'']"

definition stringOperations :: "string list" where
  "stringOperations = [''concat'', ''substring'', ''replace'', ''split'', ''join'',
     ''toUpperCase'', ''toLowerCase'', ''trim'', ''length'', ''indexOf'', ''slice'']"

definition arrayOperations :: "string list" where
  "arrayOperations = [''push'', ''pop'', ''shift'', ''unshift'', ''slice'', ''splice'',
     ''filter'', ''map'', ''reduce'', ''find'', ''sort'', ''reverse'', ''length'', ''includes'',
     ''indexOf'', ''join'']"

definition dateOperations :: "string list" where
  "dateOperations = [''now'', ''addDays'', ''subtractDays'', ''format'', ''parse'', ''getDay'',
     ''getMonth'', ''getYear'', ''getHour'', ''getMinute'', ''diff'']"

definition executeOperator :: "env \<Rightarrow> operatorConfig \<Rightarrow> dict \<Rightarrow> string + jsval" where
  "executeOperator E config context =
     (let resolvedInputs = (\<lambda>key. map_option (\<lambda>v. resolveValue v context) (inputs config key));
          opn = operation config
      in if opn \<in> set mathOperations then
           (case executeMathOperation E opn resolvedInputs of
              Inl e \<Rightarrow> Inl e | Inr n \<Rightarrow> Inr (VNum n))
         else if opn \<in> set stringOperations then executeStringOperation E opn resolvedInputs
         else if opn \<in> set arrayOperations then executeArrayOperation E opn resolvedInputs
         else if opn \<in> set dateOperations then executeDateOperation E opn resolvedInputs
         else Inl (''Unknown operation: '' @ opn))"


section \<open>The workflow engine\<close>

record node =
  nid :: string
  ntype :: string
  label :: string
  configVariables :: "dict option"
  actionType :: "string option"
  actionConfig :: jsval
  ncondition :: "condition option"
  booleanExpression :: "boolexpr option"
  operatorConfig :: "operatorConfig option"

record edge =
  eid :: string
  source :: string
  target :: string
  elabel :: "string option"

datatype level = Info | Warning | Error

record logEntry =
  nodeId :: string
  message :: string
  lvl :: level
  payload :: jsval

text \<open>
  The engine's state: the three fields of its \<^verbatim>\<open>ExecutionContext\<close> and the sequence
  of calls it has made to the \<^verbatim>\<open>onLog\<close> callback. The engine reports every log entry
  through the callback and never writes \<^verbatim>\<open>context.logs\<close> itself.
\<close>

record state =
  variables :: dict
  results :: dict
  logs :: "logEntry list"
  emitted :: "logEntry list"

definition initialState :: state where
  "initialState = \<lparr>variables = Map.empty, results = Map.empty, logs = [], emitted = []\<rparr>"

definition log_msg :: "string \<Rightarrow> string \<Rightarrow> level \<Rightarrow> jsval \<Rightarrow> state \<Rightarrow> state" where
  "log_msg i m l d st =
     st\<lparr>emitted := emitted st @ [\<lparr>nodeId = i, message = m, lvl = l, payload = d\<rparr>]\<rparr>"

text \<open>Optional property access \<^verbatim>\<open>v?.k\<close> and the Error object handed to the log.\<close>

fun getProp :: "jsval \<Rightarrow> string \<Rightarrow> jsval" where
  "getProp (VObj kvs) k = (case map_of kvs k of None \<Rightarrow> VUndefined | Some v \<Rightarrow> v)"
| "getProp _ k = VUndefined"

definition errorObject :: "string \<Rightarrow> jsval" where
  "errorObject m = VObj [(''message'', VStr m)]"

subsection \<open>Node handlers\<close>

definition executeTrigger :: "env \<Rightarrow> node \<Rightarrow> state \<Rightarrow> (string + jsval) \<times> state" where
  "executeTrigger E n st =
     (Inr (VObj [(''triggered'', VBool True), (''timestamp'', VDate (now E))]),
      (case configVariables n of
         Some vs \<Rightarrow> st\<lparr>variables := variables st ++ vs\<rparr>
       | None \<Rightarrow> st))"

text \<open>
  \<^verbatim>\<open>executeAction\<close>; the line the \<^verbatim>\<open>log\<close> action writes to the console is not part
  of the state.
\<close>

definition executeAction :: "env \<Rightarrow> node \<Rightarrow> state \<Rightarrow> (string + jsval) \<times> state" where
  "executeAction E n st =
     (let aType = (case actionType n of None \<Rightarrow> VUndefined | Some s \<Rightarrow> VStr s);
          aConfig = actionConfig n;
          st1 = log_msg (nid n) (''Executing action: '' @ toStringJS E aType) Info VUndefined st
      in if actionType n = Some ''log'' then
           (Inr (VObj [(''logged'', VBool True), (''message'', getProp aConfig ''message'')]), st1)
         else if actionType n = Some ''setVariable'' then
           (Inr (VObj [(''set'', VBool True), (''name'', getProp aConfig ''name''),
                       (''value'', getProp aConfig ''value'')]),
            st1\<lparr>variables := (variables st1)
                   (toStringJS E (getProp aConfig ''name'') \<mapsto> getProp aConfig ''value'')\<rparr>)
         else if actionType n = Some ''transform'' then
           (Inr (if truthy (getProp aConfig ''transform'') then getProp aConfig ''transform''
                 else VNull), st1)
         else (Inr (VObj [(''actionType'', aType), (''config'', aConfig)]), st1))"

definition executeCondition :: "env \<Rightarrow> node \<Rightarrow> state \<Rightarrow> (string + jsval) \<times> state" where
  "executeCondition E n st =
     (case ncondition n of
        None \<Rightarrow> (Inr (VBool False), log_msg (nid n) ''No condition configured'' Warning VUndefined st)
      | Some c \<Rightarrow>
          (case evaluateCondition E c (variables st) of
             Inl e \<Rightarrow> (Inl e, st)
           | Inr r \<Rightarrow>
               (Inr (VBool r),
                log_msg (nid n) (''Condition evaluated to: '' @ toStringJS E (VBool r)) Info VUndefined st)))"

definition executeBoolean :: "env \<Rightarrow> node \<Rightarrow> state \<Rightarrow> (string + jsval) \<times> state" where
  "executeBoolean E n st =
     (case booleanExpression n of
        None \<Rightarrow>
          (Inr (VBool False), log_msg (nid n) ''No boolean expression configured'' Warning VUndefined st)
      | Some b \<Rightarrow>
          (case evaluateBooleanExpression E b (variables st) of
             Inl e \<Rightarrow> (Inl e, st)
           | Inr r \<Rightarrow>
               (Inr (VBool r),
                log_msg (nid n) (''Boolean expression evaluated to: '' @ toStringJS E (VBool r))
                  Info VUndefined st)))"

definition executeOperatorNode :: "env \<Rightarrow> node \<Rightarrow> state \<Rightarrow> (string + jsval) \<times> state" where
  "executeOperatorNode E n st =
     (case operatorConfig n of
        None \<Rightarrow> (Inr VNull, log_msg (nid n) ''No operator configuration found'' Warning VUndefined st)
      | Some cfg \<Rightarrow>
          (case executeOperator E cfg (variables st) of
             Inl e \<Rightarrow> (Inl e, st)
           | Inr r \<Rightarrow>
               (Inr r,
                (case output_var cfg of
                   None \<Rightarrow> st
                 | Some out \<Rightarrow> if out = [] then st else st\<lparr>variables := (variables st)(out \<mapsto> r)\<rparr>))))"

text \<open>The \<^verbatim>\<open>switch (node.type)\<close> of \<^verbatim>\<open>executeNode\<close>.\<close>

definition dispatch :: "env \<Rightarrow> node \<Rightarrow> state \<Rightarrow> (string + jsval) \<times> state" where
  "dispatch E n st =
     (if ntype n = ''trigger'' then executeTrigger E n st
      else if ntype n = ''action'' then executeAction E n st
      else if ntype n = ''condition'' then executeCondition E n st
      else if ntype n = ''boolean'' then executeBoolean E n st
      else if ntype n = ''operator'' then executeOperatorNode E n st
      else (Inr VNull, log_msg (nid n) (''Unknown node type: '' @ ntype n) Warning VUndefined st))"

subsection \<open>Routing and the recursive walk\<close>

text \<open>The test on one outgoing edge in \<^verbatim>\<open>executeNextNodes\<close>.\<close>

definition shouldExecute :: "node \<Rightarrow> edge \<Rightarrow> jsval \<Rightarrow> bool" where
  "shouldExecute currentNode e currentResult =
     (if ntype currentNode = ''condition'' \<or> ntype currentNode = ''boolean'' then
        (if elabel e = Some ''true'' \<and> \<not> truthy currentResult then False
         else if elabel e = Some ''false'' \<and> truthy currentResult then False
         else True)
      else True)"

text \<open>
  The walk has no visited set and no depth limit, so it may not end on a cyclic graph.
  The first argument after the graph bounds the depth of the recursion; \<open>None\<close> says
  that the bound was reached. The state is returned also when an exception is thrown.
\<close>

fun executeNode ::
    "env \<Rightarrow> node list \<Rightarrow> edge list \<Rightarrow> nat \<Rightarrow> node \<Rightarrow> state \<Rightarrow> ((string + jsval) \<times> state) option"
  and executeNextNodes ::
    "env \<Rightarrow> node list \<Rightarrow> edge list \<Rightarrow> nat \<Rightarrow> node \<Rightarrow> jsval \<Rightarrow> edge list \<Rightarrow> state
       \<Rightarrow> ((string + unit) \<times> state) option"
  where
  "executeNode E nodes edges 0 n st = None"
| "executeNode E nodes edges (Suc fuel) n st =
     (let st1 = log_msg (nid n) (''Executing node: '' @ label n) Info VUndefined st
      in case dispatch E n st1 of
           (Inl e, st2) \<Rightarrow>
             Some (Inl e, log_msg (nid n) (''Error executing node: '' @ e) Error (errorObject e) st2)
         | (Inr result, st2) \<Rightarrow>
             (let st3 = st2\<lparr>results := (results st2)(nid n \<mapsto> result)\<rparr>;
                  st4 = st3\<lparr>variables := (variables st3)(label n \<mapsto> result)\<rparr>;
                  st5 = log_msg (nid n) (''Node completed with result: '' @ jsonStringify E result)
                          Info result st4
              in case executeNextNodes E nodes edges fuel n result
                        (filter (\<lambda>e. source e = nid n) edges) st5 of
                   None \<Rightarrow> None
                 | Some (Inl e, st6) \<Rightarrow>
                     Some (Inl e,
                           log_msg (nid n) (''Error executing node: '' @ e) Error (errorObject e) st6)
                 | Some (Inr u, st6) \<Rightarrow> Some (Inr result, st6)))"
| "executeNextNodes E nodes edges fuel currentNode currentResult [] st = Some (Inr (), st)"
| "executeNextNodes E nodes edges fuel currentNode currentResult (e # outgoing) st =
     (if shouldExecute currentNode e currentResult then
        (case find (\<lambda>n. nid n = target e) nodes of
           None \<Rightarrow> executeNextNodes E nodes edges fuel currentNode currentResult outgoing st
         | Some nextNode \<Rightarrow>
             (case executeNode E nodes edges fuel nextNode st of
                None \<Rightarrow> None
              | Some (Inl err, st') \<Rightarrow> Some (Inl err, st')
              | Some (Inr r, st') \<Rightarrow>
                  executeNextNodes E nodes edges fuel currentNode currentResult outgoing st'))
      else executeNextNodes E nodes edges fuel currentNode currentResult outgoing st)"

subsection \<open>The entry point\<close>

text \<open>Trigger discovery: the nodes that no edge leads to, in the order of the node list.\<close>

definition triggerNodes :: "node list \<Rightarrow> edge list \<Rightarrow> node list" where
  "triggerNodes nodes edges =
     filter (\<lambda>n. \<not> list_ex (\<lambda>e. target e = nid n) edges) nodes"

text \<open>
  The loop \<^verbatim>\<open>for (const trigger of triggerNodes)\<close> of \<^verbatim>\<open>execute()\<close>: an exception
  thrown under one trigger ends the loop.
\<close>

fun executeTriggers ::
    "env \<Rightarrow> node list \<Rightarrow> edge list \<Rightarrow> nat \<Rightarrow> node list \<Rightarrow> state \<Rightarrow> ((string + unit) \<times> state) option"
  where
  "executeTriggers E nodes edges fuel [] st = Some (Inr (), st)"
| "executeTriggers E nodes edges fuel (t # ts) st =
     (case executeNode E nodes edges fuel t st of
        None \<Rightarrow> None
      | Some (Inl err, st') \<Rightarrow> Some (Inl err, st')
      | Some (Inr r, st') \<Rightarrow> executeTriggers E nodes edges fuel ts st')"

text \<open>
  \<^verbatim>\<open>execute()\<close>: \<open>Inl\<close> is the message of the Error the returned promise is rejected
  with, \<open>Inr\<close> says that it resolves to the context held in the state.
\<close>

definition execute ::
    "env \<Rightarrow> node list \<Rightarrow> edge list \<Rightarrow> nat \<Rightarrow> ((string + unit) \<times> state) option" where
  "execute E nodes edges fuel =
     (let st1 = log_msg ''workflow'' ''Starting workflow execution'' Info VUndefined initialState
      in if triggerNodes nodes edges = [] then
           Some (Inl ''Workflow must have at least one trigger node'',
                 log_msg ''workflow'' ''No trigger nodes found'' Error VUndefined st1)
         else
           (case executeTriggers E nodes edges fuel (triggerNodes nodes edges) st1 of
              None \<Rightarrow> None
            | Some (Inl err, st2) \<Rightarrow> Some (Inl err, st2)
            | Some (Inr u, st2) \<Rightarrow>
                Some (Inr (),
                      log_msg ''workflow'' ''Workflow execution completed'' Info VUndefined st2)))"


section \<open>Observations on a run\<close>

text \<open>
  The nodes whose execution has started, in order, read off the log: every call of
  \<^verbatim>\<open>executeNode\<close> first reports \<^verbatim>\<open>Executing node: <label>\<close> under the node's id, and no
  other message of the engine begins with these words.
\<close>

definition startedNodes :: "state \<Rightarrow> string list" where
  "startedNodes st =
     map nodeId (filter (\<lambda>e. prefix ''Executing node: '' (message e)) (emitted st))"

text \<open>What is seen of a run that ends: how it ends, and the nodes started.\<close>

definition outcome ::
    "((string + unit) \<times> state) option \<Rightarrow> ((string + unit) \<times> string list) option" where
  "outcome run = map_option (\<lambda>(r, st). (r, startedNodes st)) run"

text \<open>
  The depth-first walk as the specification words it: a node, then, for each of its
  outgoing edges in the order of the edge list, the whole subtree of the edge's target
  before the next edge. Edges whose target is not a node are passed over. The bound on
  the depth plays the same part as in \<open>executeNode\<close>.
\<close>

definition existing :: "node list \<Rightarrow> edge list \<Rightarrow> edge list" where
  "existing nodes es = filter (\<lambda>e. list_ex (\<lambda>n. nid n = target e) nodes) es"

definition successors :: "node list \<Rightarrow> edge list \<Rightarrow> string \<Rightarrow> string list" where
  "successors nodes edges x = map target (existing nodes (filter (\<lambda>e. source e = x) edges))"

fun preorder :: "node list \<Rightarrow> edge list \<Rightarrow> nat \<Rightarrow> string \<Rightarrow> string list option"
  and preorderList :: "node list \<Rightarrow> edge list \<Rightarrow> nat \<Rightarrow> string list \<Rightarrow> string list option"
  where
  "preorder nodes edges 0 x = None"
| "preorder nodes edges (Suc d) x =
     map_option (Cons x) (preorderList nodes edges d (successors nodes edges x))"
| "preorderList nodes edges d [] = Some []"
| "preorderList nodes edges d (y # ys) =
     (case preorder nodes edges d y of
        None \<Rightarrow> None
      | Some t \<Rightarrow> map_option (append t) (preorderList nodes edges d ys))"

definition unconditional :: "node list \<Rightarrow> bool" where
  "unconditional nodes =
     list_all (\<lambda>n. ntype n \<noteq> ''condition'' \<and> ntype n \<noteq> ''boolean'') nodes"

definition edgeRel :: "node list \<Rightarrow> edge list \<Rightarrow> (string \<times> string) set" where
  "edgeRel nodes edges = {(source e, target e) | e. e \<in> set (existing nodes edges)}"

subsection \<open>Sample data for the examples\<close>

text \<open>
  A host that reads a string of decimal digits as the number it denotes and gives fixed
  answers elsewhere, and plain nodes and edges.
\<close>

definition digitsToNumber :: "string \<Rightarrow> jsnum" where
  "digitsToNumber s =
     (if s \<noteq> [] \<and> list_all (\<lambda>c. c \<in> set ''0123456789'') s
      then Fin (of_nat (foldl (\<lambda>acc c. 10 * acc + (of_char c - 48)) 0 s))
      else NaN)"

definition sampleEnv :: env where
  "sampleEnv =
     \<lparr>str2num = digitsToNumber,
      num2str = (\<lambda>n. ''NaN''),
      date2str = (\<lambda>t. ''date''),
      regexTest = (\<lambda>p s. Inr False),
      sameObject = (\<lambda>a b. False),
      jsonStringify = (\<lambda>v. ''json''),
      now = 0,
      hostMath = (\<lambda>f xs. NaN),
      executeStringOperation = (\<lambda>opn ins. Inl ''not available''),
      executeArrayOperation = (\<lambda>opn ins. Inl ''not available''),
      executeDateOperation = (\<lambda>opn ins. Inl ''not available'')\<rparr>"

definition plainNode :: "string \<Rightarrow> string \<Rightarrow> node" where
  "plainNode i ty =
     \<lparr>nid = i, ntype = ty, label = i, configVariables = None, actionType = None,
      actionConfig = VUndefined, ncondition = None, booleanExpression = None,
      operatorConfig = None\<rparr>"

definition plainEdge :: "string \<Rightarrow> string \<Rightarrow> string option \<Rightarrow> edge" where
  "plainEdge s t l = \<lparr>eid = s @ ''-'' @ t, source = s, target = t, elabel = l\<rparr>"


subsection \<open>Paths of edges\<close>

text \<open>
  A path of edges that starts at the node \<open>x\<close>, newest edge first, along edges whose target
  is a node; \<open>cur\<close> is the node the path has reached.
\<close>

fun cur :: "string \<Rightarrow> edge list \<Rightarrow> string" where
  "cur x [] = x"
| "cur x (e # q) = target e"

inductive epath :: "node list \<Rightarrow> edge list \<Rightarrow> string \<Rightarrow> edge list \<Rightarrow> bool"
  for nodes edges x where
  epath_Nil: "epath nodes edges x []"
| epath_Cons: "epath nodes edges x q \<Longrightarrow> e \<in> set (existing nodes edges) \<Longrightarrow> source e = cur x q
     \<Longrightarrow> epath nodes edges x (e # q)"

section \<open>Properties of the expression evaluator\<close>

lemma collect_map_Inr: "collect (map Inr bs) = Inr bs"
  by (induction bs) auto

lemma foldl_xor_parity:
  "foldl (\<lambda>acc val. acc \<noteq> val) a bs = (a \<noteq> odd (length (filter (\<lambda>b. b) bs)))"
  by (induction bs arbitrary: a) auto

text \<open>
  Claim C4. An \<^verbatim>\<open>XOR\<close> operator node whose children evaluate (none of them throwing)
  to the booleans \<open>bs\<close> evaluates to true exactly when an odd number of them is true.
\<close>

theorem xor_is_odd_parity:
  assumes "map (\<lambda>op. evaluateBooleanExpression E op context) children = map Inr bs"
  shows "evaluateBooleanExpression E
           (BooleanExpression ''operator'' (Some ''XOR'') (Some children) cond v) context
         = Inr (odd (length (filter (\<lambda>b. b) bs)))"
proof -
  have "foldl (\<lambda>acc val. acc = (\<not> val)) False bs = odd (length (filter (\<lambda>b. b) bs))"
    using foldl_xor_parity [of False bs] by simp
  then show ?thesis using assms by (simp add: collect_map_Inr)
qed

text \<open>\<^verbatim>\<open>XOR\<close> over three true literals is true.\<close>

theorem xor_is_odd_parity_witness:
  "map (\<lambda>op. evaluateBooleanExpression sampleEnv op Map.empty)
     [BooleanExpression ''value'' None None None (Some (VBool True)),
      BooleanExpression ''value'' None None None (Some (VBool True)),
      BooleanExpression ''value'' None None None (Some (VBool True))]
   = map Inr [True, True, True]
   \<and> evaluateBooleanExpression sampleEnv
        (BooleanExpression ''operator'' (Some ''XOR'')
           (Some [BooleanExpression ''value'' None None None (Some (VBool True)),
                  BooleanExpression ''value'' None None None (Some (VBool True)),
                  BooleanExpression ''value'' None None None (Some (VBool True))]) None None)
        Map.empty
      = Inr True"
proof -
  have h: "map (\<lambda>op. evaluateBooleanExpression sampleEnv op Map.empty)
     [BooleanExpression ''value'' None None None (Some (VBool True)),
      BooleanExpression ''value'' None None None (Some (VBool True)),
      BooleanExpression ''value'' None None None (Some (VBool True))]
   = map Inr [True, True, True]" by simp
  show ?thesis using h xor_is_odd_parity [OF h, of None None] by simp
qed






section \<open>Properties of the math operations\<close>

text \<open>
  Claim C8. \<^verbatim>\<open>divide\<close> with \<^verbatim>\<open>a = 10\<close> and \<^verbatim>\<open>b = 0\<close> returns \<^verbatim>\<open>Infinity\<close>; and each of
  the fourteen math operations returns a Number, whatever values \<^verbatim>\<open>a\<close>, \<^verbatim>\<open>b\<close> and
  \<^verbatim>\<open>value\<close> hold (infinities, zeros, \<^verbatim>\<open>NaN\<close>, or no number at all), as long as
  \<^verbatim>\<open>values\<close> is missing or is an array.
\<close>

theorem divide_by_zero_is_infinity:
  "executeMathOperation E ''divide'' [''a'' \<mapsto> VNum (Fin 10), ''b'' \<mapsto> VNum (Fin 0)] = Inr PosInf
   \<and> (opn \<in> set mathOperations
        \<and> (\<not> truthy (get ins ''values'') \<or> (\<exists>xs. get ins ''values'' = VArr xs))
      \<longrightarrow> (\<exists>r. executeMathOperation E opn ins = Inr r))"
proof
  show "executeMathOperation E ''divide'' [''a'' \<mapsto> VNum (Fin 10), ''b'' \<mapsto> VNum (Fin 0)]
        = Inr PosInf"
    by (simp add: executeMathOperation_def get_def num_divide_def isInf_def isZero_def
        signedInf_def)
  show "opn \<in> set mathOperations
        \<and> (\<not> truthy (get ins ''values'') \<or> (\<exists>xs. get ins ''values'' = VArr xs))
      \<longrightarrow> (\<exists>r. executeMathOperation E opn ins = Inr r)"
    by (auto simp: executeMathOperation_def mathOperations_def numberList_def Let_def)
qed

theorem divide_by_zero_is_infinity_witness:
  "''modulo'' \<in> set mathOperations
   \<and> \<not> truthy (get [''a'' \<mapsto> VNum PosInf, ''b'' \<mapsto> VNum NegZero] ''values'')
   \<and> (\<exists>r. executeMathOperation sampleEnv ''modulo'' [''a'' \<mapsto> VNum PosInf, ''b'' \<mapsto> VNum NegZero]
          = Inr r)"
  using divide_by_zero_is_infinity
          [of sampleEnv "''modulo''" "[''a'' \<mapsto> VNum PosInf, ''b'' \<mapsto> VNum NegZero]"]
  by (simp add: mathOperations_def get_def)

section \<open>Properties of the engine: one node\<close>

lemmas run_defs = outcome_def execute_def triggerNodes_def initialState_def log_msg_def dispatch_def
  executeTrigger_def executeAction_def executeCondition_def executeBoolean_def
  executeOperatorNode_def startedNodes_def shouldExecute_def plainNode_def plainEdge_def
  sampleEnv_def Let_def

text \<open>
  Claim C1, as stated, fails: an outgoing edge of a condition node that carries no label
  fires, whatever the node's result. Here the condition node \<^verbatim>\<open>c\<close> (no condition
  configured, so its result is false) has one unlabelled edge to the action \<^verbatim>\<open>a\<close>, and
  \<^verbatim>\<open>a\<close> is executed.
\<close>

theorem unlabelled_edge_fires_counterexample:
  "ntype (plainNode ''c'' ''condition'') = ''condition''
   \<and> elabel (plainEdge ''c'' ''a'' None) = None
   \<and> shouldExecute (plainNode ''c'' ''condition'') (plainEdge ''c'' ''a'' None) (VBool False)
   \<and> outcome
        (execute sampleEnv [plainNode ''c'' ''condition'', plainNode ''a'' ''action'']
           [plainEdge ''c'' ''a'' None] (Suc (Suc 0)))
      = Some (Inr (), [''c'', ''a''])"
  by (simp add: run_defs)

text \<open>
  Claim C1, amended. For a node of type \<^verbatim>\<open>condition\<close> or \<^verbatim>\<open>boolean\<close> with result \<open>r\<close>, an
  outgoing edge labelled \<^verbatim>\<open>"true"\<close> fires exactly when \<open>r\<close> is true, an edge labelled
  \<^verbatim>\<open>"false"\<close> fires exactly when \<open>r\<close> is false, and an edge whose label is absent or is
  neither string always fires; for a node of every other type all outgoing edges fire.
  An edge that does not fire has no effect on the run (the loop over the outgoing edges
  is the loop over the firing ones); the target of an edge that fires is executed before
  the remaining edges are looked at.
\<close>

theorem edge_firing:
  "(ntype n = ''condition'' \<or> ntype n = ''boolean'' \<longrightarrow>
       (elabel e = Some ''true'' \<longrightarrow> shouldExecute n e r = truthy r)
     \<and> (elabel e = Some ''false'' \<longrightarrow> shouldExecute n e r = (\<not> truthy r))
     \<and> (elabel e \<noteq> Some ''true'' \<and> elabel e \<noteq> Some ''false'' \<longrightarrow> shouldExecute n e r))
   \<and> (ntype n \<noteq> ''condition'' \<and> ntype n \<noteq> ''boolean'' \<longrightarrow> shouldExecute n e r)
   \<and> executeNextNodes E nodes edges fuel n r outgoing st
       = executeNextNodes E nodes edges fuel n r (filter (\<lambda>e. shouldExecute n e r) outgoing) st
   \<and> (\<not> shouldExecute n e r \<longrightarrow>
        executeNextNodes E nodes edges fuel n r (e # outgoing) st
        = executeNextNodes E nodes edges fuel n r outgoing st)
   \<and> (shouldExecute n e r \<and> find (\<lambda>m. nid m = target e) nodes = Some m \<longrightarrow>
        executeNextNodes E nodes edges fuel n r (e # outgoing) st
        = (case executeNode E nodes edges fuel m st of
             None \<Rightarrow> None
           | Some (Inl err, st') \<Rightarrow> Some (Inl err, st')
           | Some (Inr x, st') \<Rightarrow> executeNextNodes E nodes edges fuel n r outgoing st'))"
proof -
  have labels: "(ntype n = ''condition'' \<or> ntype n = ''boolean'' \<longrightarrow>
       (elabel e = Some ''true'' \<longrightarrow> shouldExecute n e r = truthy r)
     \<and> (elabel e = Some ''false'' \<longrightarrow> shouldExecute n e r = (\<not> truthy r))
     \<and> (elabel e \<noteq> Some ''true'' \<and> elabel e \<noteq> Some ''false'' \<longrightarrow> shouldExecute n e r))
   \<and> (ntype n \<noteq> ''condition'' \<and> ntype n \<noteq> ''boolean'' \<longrightarrow> shouldExecute n e r)"
    by (auto simp: shouldExecute_def)
  have firing_only: "executeNextNodes E nodes edges fuel n r outgoing st
       = executeNextNodes E nodes edges fuel n r (filter (\<lambda>e. shouldExecute n e r) outgoing) st"
  proof (induction outgoing arbitrary: st)
    case Nil
    show ?case by simp
  next
    case (Cons e outgoing)
    show ?case
      by (cases "find (\<lambda>m. nid m = target e) nodes")
         (auto simp: Cons.IH [symmetric] split: option.splits sum.splits prod.splits)
  qed
  have steps: "(\<not> shouldExecute n e r \<longrightarrow>
        executeNextNodes E nodes edges fuel n r (e # outgoing) st
        = executeNextNodes E nodes edges fuel n r outgoing st)
   \<and> (shouldExecute n e r \<and> find (\<lambda>m. nid m = target e) nodes = Some m \<longrightarrow>
        executeNextNodes E nodes edges fuel n r (e # outgoing) st
        = (case executeNode E nodes edges fuel m st of
             None \<Rightarrow> None
           | Some (Inl err, st') \<Rightarrow> Some (Inl err, st')
           | Some (Inr x, st') \<Rightarrow> executeNextNodes E nodes edges fuel n r outgoing st'))"
    by simp
  show ?thesis using labels firing_only steps by blast
qed

theorem edge_firing_witness:
  "ntype (plainNode ''c'' ''condition'') = ''condition''
   \<and> elabel (plainEdge ''c'' ''a'' (Some ''true'')) = Some ''true''
   \<and> \<not> shouldExecute (plainNode ''c'' ''condition'') (plainEdge ''c'' ''a'' (Some ''true''))
         (VBool False)
   \<and> executeNextNodes sampleEnv [plainNode ''a'' ''action''] [] (Suc 0)
        (plainNode ''c'' ''condition'') (VBool False)
        [plainEdge ''c'' ''a'' (Some ''true'')] initialState
      = Some (Inr (), initialState)
   \<and> elabel (plainEdge ''c'' ''a'' (Some ''false'')) = Some ''false''
   \<and> shouldExecute (plainNode ''c'' ''condition'') (plainEdge ''c'' ''a'' (Some ''false''))
         (VBool False)
   \<and> find (\<lambda>m. nid m = target (plainEdge ''c'' ''a'' (Some ''false''))) [plainNode ''a'' ''action'']
      = Some (plainNode ''a'' ''action'')
   \<and> outcome (executeNextNodes sampleEnv [plainNode ''a'' ''action''] [] (Suc 0)
        (plainNode ''c'' ''condition'') (VBool False)
        [plainEdge ''c'' ''a'' (Some ''false'')] initialState)
      = Some (Inr (), [''a''])
   \<and> elabel (plainEdge ''c'' ''a'' (Some ''maybe'')) \<noteq> Some ''true''
   \<and> elabel (plainEdge ''c'' ''a'' (Some ''maybe'')) \<noteq> Some ''false''
   \<and> shouldExecute (plainNode ''c'' ''condition'') (plainEdge ''c'' ''a'' (Some ''maybe''))
         (VBool False)
   \<and> ntype (plainNode ''b'' ''action'') \<noteq> ''condition''
   \<and> ntype (plainNode ''b'' ''action'') \<noteq> ''boolean''
   \<and> shouldExecute (plainNode ''b'' ''action'') (plainEdge ''b'' ''a'' (Some ''true''))
         (VBool False)"
proof -
  let ?c = "plainNode ''c'' ''condition''" and ?a = "plainNode ''a'' ''action''"
  have h1: "ntype ?c = ''condition''"
    and h2: "elabel (plainEdge ''c'' ''a'' (Some ''true'')) = Some ''true''"
    and h3: "ntype (plainNode ''b'' ''action'') \<noteq> ''condition''"
    and h4: "ntype (plainNode ''b'' ''action'') \<noteq> ''boolean''"
    and h5: "elabel (plainEdge ''c'' ''a'' (Some ''false'')) = Some ''false''"
    and h6: "elabel (plainEdge ''c'' ''a'' (Some ''maybe'')) \<noteq> Some ''true''"
    and h7: "elabel (plainEdge ''c'' ''a'' (Some ''maybe'')) \<noteq> Some ''false''"
    and h8: "find (\<lambda>m. nid m = target (plainEdge ''c'' ''a'' (Some ''false''))) [?a] = Some ?a"
    by (simp_all add: plainNode_def plainEdge_def)
  note T = edge_firing [where n = ?c and e = "plainEdge ''c'' ''a'' (Some ''true'')"
        and r = "VBool False" and E = sampleEnv and nodes = "[?a]" and edges = "[]"
        and fuel = "Suc 0" and outgoing = "[]" and st = initialState]
  note F = edge_firing [where n = ?c and e = "plainEdge ''c'' ''a'' (Some ''false'')"
        and r = "VBool False" and E = sampleEnv and nodes = "[?a]" and edges = "[]"
        and fuel = "Suc 0" and outgoing = "[]" and st = initialState and m = ?a]
  note M = edge_firing [where n = ?c and e = "plainEdge ''c'' ''a'' (Some ''maybe'')"
        and r = "VBool False"]
  note B = edge_firing [where n = "plainNode ''b'' ''action''"
        and e = "plainEdge ''b'' ''a'' (Some ''true'')" and r = "VBool False"]
  have t1: "\<not> shouldExecute ?c (plainEdge ''c'' ''a'' (Some ''true'')) (VBool False)"
    using T h1 h2 by simp
  have t2: "executeNextNodes sampleEnv [?a] [] (Suc 0) ?c (VBool False)
              [plainEdge ''c'' ''a'' (Some ''true'')] initialState = Some (Inr (), initialState)"
    using T t1 by simp
  have f1: "shouldExecute ?c (plainEdge ''c'' ''a'' (Some ''false'')) (VBool False)"
    using F h1 h5 by simp
  have "executeNextNodes sampleEnv [?a] [] (Suc 0) ?c (VBool False)
              [plainEdge ''c'' ''a'' (Some ''false'')] initialState
        = (case executeNode sampleEnv [?a] [] (Suc 0) ?a initialState of
             None \<Rightarrow> None
           | Some (Inl err, st') \<Rightarrow> Some (Inl err, st')
           | Some (Inr x, st') \<Rightarrow>
               executeNextNodes sampleEnv [?a] [] (Suc 0) ?c (VBool False) [] st')"
    using F f1 h8 by blast
  then have f2: "outcome (executeNextNodes sampleEnv [?a] [] (Suc 0) ?c (VBool False)
              [plainEdge ''c'' ''a'' (Some ''false'')] initialState) = Some (Inr (), [''a''])"
    by (simp add: run_defs)
  have m1: "shouldExecute ?c (plainEdge ''c'' ''a'' (Some ''maybe'')) (VBool False)"
    using M h1 h6 h7 by simp
  have b1: "shouldExecute (plainNode ''b'' ''action'') (plainEdge ''b'' ''a'' (Some ''true''))
              (VBool False)"
    using B h3 h4 by simp
  show ?thesis using h1 h2 h3 h4 h5 h6 h7 h8 t1 t2 f1 f2 m1 b1 by simp
qed

text \<open>
  Claim C7. A node whose type is none of \<^verbatim>\<open>trigger\<close>, \<^verbatim>\<open>action\<close>, \<^verbatim>\<open>condition\<close>,
  \<^verbatim>\<open>boolean\<close>, \<^verbatim>\<open>operator\<close> yields the result \<^verbatim>\<open>null\<close> and one log entry of level
  \<^verbatim>\<open>warning\<close>; all its outgoing edges fire, and the node returns \<^verbatim>\<open>null\<close> whenever the
  processing of its outgoing edges returns: an exception can only come from a node
  further down.
\<close>

theorem unknown_node_type_continues:
  assumes "ntype n \<notin> {''trigger'', ''action'', ''condition'', ''boolean'', ''operator''}"
  shows "dispatch E n st
           = (Inr VNull, log_msg (nid n) (''Unknown node type: '' @ ntype n) Warning VUndefined st)
       \<and> (\<forall>e r. shouldExecute n e r)
       \<and> (\<exists>st5. results st5 (nid n) = Some VNull
             \<and> \<lparr>nodeId = nid n, message = ''Unknown node type: '' @ ntype n, lvl = Warning,
                 payload = VUndefined\<rparr> \<in> set (emitted st5)
             \<and> executeNode E nodes edges (Suc fuel) n st
               = (case executeNextNodes E nodes edges fuel n VNull
                         (filter (\<lambda>e. source e = nid n) edges) st5 of
                    None \<Rightarrow> None
                  | Some (Inl err, st6) \<Rightarrow>
                      Some (Inl err, log_msg (nid n) (''Error executing node: '' @ err) Error
                                       (errorObject err) st6)
                  | Some (Inr u, st6) \<Rightarrow> Some (Inr VNull, st6)))"
proof (intro conjI allI)
  show D: "dispatch E n st
           = (Inr VNull, log_msg (nid n) (''Unknown node type: '' @ ntype n) Warning VUndefined st)"
    for st using assms by (simp add: dispatch_def)
  show "shouldExecute n e r" for e r using assms by (simp add: shouldExecute_def)
  let ?st1 = "log_msg (nid n) (''Executing node: '' @ label n) Info VUndefined st"
  let ?st2 = "log_msg (nid n) (''Unknown node type: '' @ ntype n) Warning VUndefined ?st1"
  let ?st3 = "?st2\<lparr>results := (results ?st2)(nid n \<mapsto> VNull)\<rparr>"
  let ?st4 = "?st3\<lparr>variables := (variables ?st3)(label n \<mapsto> VNull)\<rparr>"
  let ?st5 = "log_msg (nid n) (''Node completed with result: '' @ jsonStringify E VNull) Info VNull ?st4"
  show "\<exists>st5. results st5 (nid n) = Some VNull
             \<and> \<lparr>nodeId = nid n, message = ''Unknown node type: '' @ ntype n, lvl = Warning,
                 payload = VUndefined\<rparr> \<in> set (emitted st5)
             \<and> executeNode E nodes edges (Suc fuel) n st
               = (case executeNextNodes E nodes edges fuel n VNull
                         (filter (\<lambda>e. source e = nid n) edges) st5 of
                    None \<Rightarrow> None
                  | Some (Inl err, st6) \<Rightarrow>
                      Some (Inl err, log_msg (nid n) (''Error executing node: '' @ err) Error
                                       (errorObject err) st6)
                  | Some (Inr u, st6) \<Rightarrow> Some (Inr VNull, st6))"
  proof (intro exI [of _ ?st5] conjI)
    show "results ?st5 (nid n) = Some VNull" by (simp add: log_msg_def)
    show "\<lparr>nodeId = nid n, message = ''Unknown node type: '' @ ntype n, lvl = Warning,
                 payload = VUndefined\<rparr> \<in> set (emitted ?st5)" by (simp add: log_msg_def)
    show "executeNode E nodes edges (Suc fuel) n st
               = (case executeNextNodes E nodes edges fuel n VNull
                         (filter (\<lambda>e. source e = nid n) edges) ?st5 of
                    None \<Rightarrow> None
                  | Some (Inl err, st6) \<Rightarrow>
                      Some (Inl err, log_msg (nid n) (''Error executing node: '' @ err) Error
                                       (errorObject err) st6)
                  | Some (Inr u, st6) \<Rightarrow> Some (Inr VNull, st6))"
      by (simp add: D Let_def split: option.splits sum.splits prod.splits)
  qed
qed

theorem unknown_node_type_continues_witness:
  "ntype (plainNode ''u'' ''webhook'')
     \<notin> {''trigger'', ''action'', ''condition'', ''boolean'', ''operator''}
   \<and> dispatch sampleEnv (plainNode ''u'' ''webhook'') initialState
       = (Inr VNull, log_msg ''u'' ''Unknown node type: webhook'' Warning VUndefined initialState)
   \<and> shouldExecute (plainNode ''u'' ''webhook'') (plainEdge ''u'' ''a'' (Some ''false'')) VNull
   \<and> map_option (\<lambda>(r, st). (r, startedNodes st, results st ''u''))
        (execute sampleEnv [plainNode ''u'' ''webhook'', plainNode ''a'' ''action'']
           [plainEdge ''u'' ''a'' (Some ''false'')] (Suc (Suc 0)))
      = Some (Inr (), [''u'', ''a''], Some VNull)"
proof -
  have h: "ntype (plainNode ''u'' ''webhook'')
     \<notin> {''trigger'', ''action'', ''condition'', ''boolean'', ''operator''}"
    by (simp add: plainNode_def)
  have "dispatch sampleEnv (plainNode ''u'' ''webhook'') initialState
       = (Inr VNull, log_msg ''u'' ''Unknown node type: webhook'' Warning VUndefined initialState)"
    and "shouldExecute (plainNode ''u'' ''webhook'') (plainEdge ''u'' ''a'' (Some ''false'')) VNull"
    using unknown_node_type_continues [OF h, of sampleEnv initialState "[]" "[]" 0]
    by (simp_all add: plainNode_def)
  then show ?thesis using h by (simp add: run_defs)
qed



section \<open>Properties of the engine: the entry point\<close>

text \<open>
  Claim C3, as stated, fails: with no trigger node, \<^verbatim>\<open>execute()\<close> of the TypeScript
  engine throws (the promise is rejected with an Error); it does not resolve to an
  object with \<^verbatim>\<open>success: false\<close>.
\<close>

theorem no_trigger_counterexample:
  "triggerNodes [] [] = []
   \<and> map_option fst (execute sampleEnv [] [] (Suc 0))
      = Some (Inl ''Workflow must have at least one trigger node'')"
  by (simp add: execute_def triggerNodes_def)

text \<open>
  Claim C3, amended. For every graph in which trigger discovery finds no node,
  \<^verbatim>\<open>execute()\<close> ends, whatever the bound on the depth, by throwing the Error
  \<^verbatim>\<open>Workflow must have at least one trigger node\<close>; no node result and no variable has
  been recorded, and the log holds the start entry and the error entry
  \<^verbatim>\<open>No trigger nodes found\<close> and nothing else, so no node has been executed.
\<close>

theorem no_trigger_rejects:
  assumes "triggerNodes nodes edges = []"
  shows "\<exists>st. execute E nodes edges fuel
            = Some (Inl ''Workflow must have at least one trigger node'', st)
          \<and> results st = Map.empty \<and> variables st = Map.empty
          \<and> emitted st =
              [\<lparr>nodeId = ''workflow'', message = ''Starting workflow execution'', lvl = Info,
                payload = VUndefined\<rparr>,
               \<lparr>nodeId = ''workflow'', message = ''No trigger nodes found'', lvl = Error,
                payload = VUndefined\<rparr>]"
  using assms by (simp add: execute_def initialState_def log_msg_def)

theorem no_trigger_rejects_witness:
  "triggerNodes [plainNode ''a'' ''action''] [plainEdge ''a'' ''a'' None] = []
   \<and> map_option (\<lambda>(r, st). (r, startedNodes st, map message (emitted st)))
        (execute sampleEnv [plainNode ''a'' ''action''] [plainEdge ''a'' ''a'' None] 0)
      = Some (Inl ''Workflow must have at least one trigger node'', [],
              [''Starting workflow execution'', ''No trigger nodes found''])"
proof -
  have h: "triggerNodes [plainNode ''a'' ''action''] [plainEdge ''a'' ''a'' None] = []"
    by (simp add: triggerNodes_def plainNode_def plainEdge_def)
  from no_trigger_rejects [OF h, of sampleEnv 0] obtain st where
    "execute sampleEnv [plainNode ''a'' ''action''] [plainEdge ''a'' ''a'' None] 0
       = Some (Inl ''Workflow must have at least one trigger node'', st)"
    "emitted st =
       [\<lparr>nodeId = ''workflow'', message = ''Starting workflow execution'', lvl = Info,
         payload = VUndefined\<rparr>,
        \<lparr>nodeId = ''workflow'', message = ''No trigger nodes found'', lvl = Error,
         payload = VUndefined\<rparr>]"
    by blast
  then show ?thesis using h by (simp add: startedNodes_def)
qed

subsection \<open>The log of a walk\<close>

lemma started_log:
  "startedNodes (log_msg i m l d st) =
     startedNodes st @ (if prefix ''Executing node: '' m then [i] else [])"
  by (simp add: startedNodes_def log_msg_def)

lemma started_upd [simp]:
  "startedNodes (st\<lparr>variables := v\<rparr>) = startedNodes st"
  "startedNodes (st\<lparr>results := r\<rparr>) = startedNodes st"
  by (simp_all add: startedNodes_def)

lemma dispatch_started: "dispatch E n st = (r, st') \<Longrightarrow> startedNodes st' = startedNodes st"
  by (auto simp: dispatch_def executeTrigger_def executeAction_def executeCondition_def
       executeBoolean_def executeOperatorNode_def started_log Let_def
       split: if_splits option.splits sum.splits)

lemma find_node_None: "find (\<lambda>n. nid n = x) nodes = None \<longleftrightarrow> \<not> list_ex (\<lambda>n. nid n = x) nodes"
  by (auto simp: find_None_iff list_ex_iff)

lemma find_node_Some:
  "find (\<lambda>n. nid n = x) nodes = Some m \<Longrightarrow> m \<in> set nodes \<and> nid m = x \<and> list_ex (\<lambda>n. nid n = x) nodes"
  by (auto simp: find_Some_iff list_ex_iff)



lemma triggerNodes_iff:
  "t \<in> set (triggerNodes nodes edges) \<longleftrightarrow> t \<in> set nodes \<and> nid t \<notin> target ` set edges"
  by (auto simp: triggerNodes_def list_ex_iff image_iff)



section \<open>The walk on a graph without conditions\<close>

lemma shouldExecute_unconditional:
  "unconditional nodes \<Longrightarrow> n \<in> set nodes \<Longrightarrow> shouldExecute n e r"
  by (auto simp: unconditional_def shouldExecute_def list_all_iff)

lemma walk_preorder:
  "executeNode E nodes edges fuel n st = Some (Inr r, st') \<Longrightarrow> unconditional nodes \<Longrightarrow> n \<in> set nodes \<Longrightarrow>
     \<exists>T. preorder nodes edges fuel (nid n) = Some T \<and> startedNodes st' = startedNodes st @ T"
  "executeNextNodes E nodes edges fuel cn cr out st = Some (Inr u, st'') \<Longrightarrow> unconditional nodes \<Longrightarrow> cn \<in> set nodes \<Longrightarrow>
     \<exists>U. preorderList nodes edges fuel (map target (existing nodes out)) = Some U
        \<and> startedNodes st'' = startedNodes st @ U"
proof (induction E nodes edges fuel n st and E nodes edges fuel cn cr out st
        arbitrary: r st' and u st'' rule: executeNode_executeNextNodes.induct)
  case (1 E nodes edges n st)
  then show ?case by simp
next
  case (2 E nodes edges fuel n st)
  let ?st1 = "log_msg (nid n) (''Executing node: '' @ label n) Info VUndefined st"
  obtain d st2 where D: "dispatch E n ?st1 = (d, st2)" by (cases "dispatch E n ?st1")
  have S2: "startedNodes st2 = startedNodes st @ [nid n]"
    using dispatch_started [OF D] by (simp add: started_log)
  obtain result where R: "d = Inr result"
    using 2(2) D by (cases d) (auto simp: Let_def)
  let ?st3 = "st2\<lparr>results := (results st2)(nid n \<mapsto> result)\<rparr>"
  let ?st4 = "?st3\<lparr>variables := (variables ?st3)(label n \<mapsto> result)\<rparr>"
  let ?st5 = "log_msg (nid n) (''Node completed with result: '' @ jsonStringify E result) Info result ?st4"
  have S5: "startedNodes ?st5 = startedNodes st @ [nid n]"
    using S2 by (simp add: started_log)
  have N: "executeNextNodes E nodes edges fuel n result
                        (filter (\<lambda>e. source e = nid n) edges) ?st5 = Some (Inr (), st')"
    using 2(2) D R by (auto simp: Let_def split: option.splits sum.splits)
  have "\<exists>U. preorderList nodes edges fuel (map target (existing nodes (filter (\<lambda>e. source e = nid n) edges))) = Some U
        \<and> startedNodes st' = startedNodes ?st5 @ U"
    using 2(1) [OF refl D [symmetric] R refl refl refl N 2(3) 2(4)] .
  then show ?case using S5 by (auto simp: successors_def)
next
  case (3 E nodes edges fuel currentNode currentResult st)
  then show ?case by (simp add: existing_def)
next
  case (4 E nodes edges fuel cn cr e outgoing st)
  note run = "4.prems"(1) and unc = "4.prems"(2) and cn = "4.prems"(3)
  have fire: "shouldExecute cn e cr" using unc cn by (rule shouldExecute_unconditional)
  show ?case
  proof (cases "find (\<lambda>n. nid n = target e) nodes")
    case None
    then have "executeNextNodes E nodes edges fuel cn cr outgoing st = Some (Inr u, st'')"
      using run fire by simp
    from "4.IH"(1) [OF fire None this unc cn] None show ?thesis
      by (simp add: existing_def find_node_None)
  next
    case (Some m)
    then have m: "m \<in> set nodes" "nid m = target e" "list_ex (\<lambda>n. nid n = target e) nodes"
      using find_node_Some by blast+
    obtain x s1 where X: "executeNode E nodes edges fuel m st = Some (Inr x, s1)"
      and Y: "executeNextNodes E nodes edges fuel cn cr outgoing s1 = Some (Inr u, st'')"
      using run fire Some by (auto split: option.splits sum.splits)
    from "4.IH"(2) [OF fire Some X unc m(1)] obtain T where
      T: "preorder nodes edges fuel (nid m) = Some T" "startedNodes s1 = startedNodes st @ T" by blast
    from "4.IH"(3) [OF fire Some X refl refl Y unc cn] obtain U where
      U: "preorderList nodes edges fuel (map target (existing nodes outgoing)) = Some U"
         "startedNodes st'' = startedNodes s1 @ U" by blast
    show ?thesis using T U m by (simp add: existing_def)
  qed
qed

lemma preorderList_Cons_defined:
  "preorderList nodes edges d (y # ys) \<noteq> None \<longleftrightarrow>
     preorder nodes edges d y \<noteq> None \<and> preorderList nodes edges d ys \<noteq> None"
  by (auto split: option.splits)

lemma walk_defined:
  "preorder nodes edges fuel (nid n) \<noteq> None \<Longrightarrow> executeNode E nodes edges fuel n st \<noteq> None"
  "preorderList nodes edges fuel (map target (existing nodes out)) \<noteq> None \<Longrightarrow>
     executeNextNodes E nodes edges fuel cn cr out st \<noteq> None"
proof (induction E nodes edges fuel n st and E nodes edges fuel cn cr out st
        rule: executeNode_executeNextNodes.induct)
  case (1 E nodes edges n st)
  then show ?case by simp
next
  case (2 E nodes edges fuel n st)
  have P: "preorderList nodes edges fuel
             (map target (existing nodes (filter (\<lambda>e. source e = nid n) edges))) \<noteq> None"
    using "2.prems" by (auto simp: successors_def)
  show ?case
    using "2.IH" [OF refl _ _ refl refl refl P]
    by (auto simp: Let_def split: prod.splits sum.splits option.splits)
next
  case (3 E nodes edges fuel currentNode currentResult st)
  then show ?case by simp
next
  case (4 E nodes edges fuel cn cr e outgoing st)
  show ?case
  proof (cases "find (\<lambda>n. nid n = target e) nodes")
    case None
    then have "preorderList nodes edges fuel (map target (existing nodes outgoing)) \<noteq> None"
      using "4.prems" by (simp add: existing_def find_node_None)
    then show ?thesis using "4.IH"(1,4) None by auto
  next
    case (Some m)
    then have m: "m \<in> set nodes" "nid m = target e" "list_ex (\<lambda>n. nid n = target e) nodes"
      using find_node_Some by blast+
    have A: "preorder nodes edges fuel (nid m) \<noteq> None"
      and B: "preorderList nodes edges fuel (map target (existing nodes outgoing)) \<noteq> None"
      using "4.prems" m by (auto simp: existing_def split: option.splits)
    show ?thesis
    proof (cases "shouldExecute cn e cr")
      case True
      from "4.IH"(2) [OF True Some A] obtain q s1 where
        X: "executeNode E nodes edges fuel m st = Some (q, s1)" by (metis option.exhaust surj_pair)
      show ?thesis
      proof (cases q)
        case (Inl a)
        then show ?thesis using True Some X by simp
      next
        case (Inr b)
        from "4.IH"(3) [OF True Some X [unfolded Inr] refl refl B]
        show ?thesis using True Some X Inr by simp
      qed
    next
      case False
      then show ?thesis using "4.IH"(4) [OF False B] by simp
    qed
  qed
qed

lemma count_list_map_filter: "count_list (map f xs) y = length (filter (\<lambda>x. f x = y) xs)"
  by (induction xs) auto

lemma sum_list_indicator:
  "sum_list (map (\<lambda>x. if P x then 1 else 0) xs) = length (filter P xs)"
  by (induction xs) auto

lemma count_list_Cons_if: "count_list (x # xs) z = (if x = z then 1 else 0) + count_list xs z"
  by simp

lemma preorder_count:
  "preorder nodes edges d x = Some T \<Longrightarrow>
     count_list T y = (if y = x then 1 else 0)
       + sum_list (map (\<lambda>e. count_list T (source e))
                    (filter (\<lambda>e. target e = y) (existing nodes edges)))"
  "preorderList nodes edges d ys = Some U \<Longrightarrow>
     count_list U y = count_list ys y
       + sum_list (map (\<lambda>e. count_list U (source e))
                    (filter (\<lambda>e. target e = y) (existing nodes edges)))"
proof (induction nodes edges d x and nodes edges d ys arbitrary: T and U
        rule: preorder_preorderList.induct)
  case (1 nodes edges x)
  then show ?case by simp
next
  case (2 nodes edges d x)
  then obtain U where U: "preorderList nodes edges d (successors nodes edges x) = Some U"
    and T: "T = x # U" by auto
  let ?In = "filter (\<lambda>e. target e = y) (existing nodes edges)"
  have a: "count_list (successors nodes edges x) y = length (filter (\<lambda>e. source e = x) ?In)"
    unfolding successors_def existing_def count_list_map_filter
    by (simp add: conj_commute conj_left_commute cong: conj_cong)
  have b: "sum_list (map (\<lambda>e. count_list (x # U) (source e)) ?In)
           = length (filter (\<lambda>e. source e = x) ?In) + sum_list (map (\<lambda>e. count_list U (source e)) ?In)"
    unfolding count_list_Cons_if sum_list_addf sum_list_indicator
    by (simp add: eq_commute)
  show ?case using "2.IH" [OF U, of] a b T by auto
next
  case (3 nodes edges d)
  then show ?case by simp
next
  case (4 nodes edges d y' ys)
  then obtain T' U' where T': "preorder nodes edges d y' = Some T'"
    and U': "preorderList nodes edges d ys = Some U'" and U: "U = T' @ U'"
    by (auto split: option.splits)
  show ?case
    using "4.IH"(1) [OF T'] "4.IH"(2) [OF T' U'] U
    by (simp add: sum_list_addf)
qed

lemma successors_edgeRel: "z \<in> set (successors nodes edges x) \<Longrightarrow> (x, z) \<in> edgeRel nodes edges"
  by (auto simp: successors_def edgeRel_def existing_def)

lemma preorder_reachable:
  "preorder nodes edges d x = Some T \<Longrightarrow> set T \<subseteq> (edgeRel nodes edges)\<^sup>* `` {x}"
  "preorderList nodes edges d ys = Some U \<Longrightarrow> set U \<subseteq> (edgeRel nodes edges)\<^sup>* `` set ys"
proof (induction nodes edges d x and nodes edges d ys arbitrary: T and U
        rule: preorder_preorderList.induct)
  case (1 nodes edges x)
  then show ?case by simp
next
  case (2 nodes edges d x)
  then obtain U where U: "preorderList nodes edges d (successors nodes edges x) = Some U"
    and T: "T = x # U" by auto
  have "set U \<subseteq> (edgeRel nodes edges)\<^sup>* `` set (successors nodes edges x)"
    using "2.IH" [OF U] .
  also have "\<dots> \<subseteq> (edgeRel nodes edges)\<^sup>* `` {x}"
    using successors_edgeRel by (fastforce intro: converse_rtrancl_into_rtrancl)
  finally show ?case using T by auto
next
  case (3 nodes edges d)
  then show ?case by simp
next
  case (4 nodes edges d y' ys)
  then obtain T' U' where T': "preorder nodes edges d y' = Some T'"
    and U': "preorderList nodes edges d ys = Some U'" and U: "U = T' @ U'"
    by (auto split: option.splits)
  show ?case
    using "4.IH"(1) [OF T'] "4.IH"(2) [OF T' U'] U by auto
qed

subsection \<open>Graphs in which at most one edge leads to each node\<close>

lemma filter_unique:
  "distinct (map f xs) \<Longrightarrow> x \<in> set xs \<Longrightarrow> filter (\<lambda>z. f z = f x) xs = [x]"
proof (induction xs)
  case Nil
  then show ?case by simp
next
  case (Cons a xs)
  show ?case
  proof (cases "a = x")
    case True
    have "filter (\<lambda>z. f z = f x) xs = []"
      using Cons.prems(1) True by (simp add: filter_empty_conv) (metis imageI)
    then show ?thesis using True by simp
  next
    case False
    then have "x \<in> set xs" using Cons.prems by simp
    moreover have "f a \<noteq> f x" using Cons.prems(1) \<open>x \<in> set xs\<close> by auto
    ultimately show ?thesis using Cons by simp
  qed
qed

lemma existing_subset: "set (existing nodes edges) \<subseteq> set edges"
  by (auto simp: existing_def)

lemma distinct_existing:
  "distinct (map target edges) \<Longrightarrow> distinct (map target (existing nodes edges))"
  by (simp add: existing_def distinct_map_filter)

lemma tree_count_one:
  assumes tree: "distinct (map target edges)"
      and root: "x \<notin> target ` set edges"
      and pre: "preorder nodes edges d x = Some T"
      and reach: "(x, z) \<in> (edgeRel nodes edges)\<^sup>*"
  shows "count_list T z = 1"
  using reach
proof (induction rule: rtrancl_induct)
  case base
  have "filter (\<lambda>e. target e = x) (existing nodes edges) = []"
    using root existing_subset [of nodes edges] by (auto simp: filter_empty_conv)
  then show ?case using preorder_count(1) [OF pre, of x] by simp
next
  case (step y z)
  from step(2) obtain e where e: "e \<in> set (existing nodes edges)" "source e = y" "target e = z"
    by (auto simp: edgeRel_def)
  have "filter (\<lambda>a. target a = target e) (existing nodes edges) = [e]"
    using filter_unique [OF distinct_existing [OF tree] e(1)] .
  moreover have "z \<noteq> x" using e root existing_subset [of nodes edges] by auto
  ultimately show ?case using preorder_count(1) [OF pre, of z] e step(3) by simp
qed

lemma distinct_if_count_le_1: "(\<And>y. count_list T y \<le> 1) \<Longrightarrow> distinct T"
proof (induction T)
  case Nil
  then show ?case by simp
next
  case (Cons a T)
  have "count_list T a = 0" using Cons.prems [of a] by simp
  then have "a \<notin> set T" by (simp add: count_list_0_iff)
  moreover have "\<And>y. count_list T y \<le> 1"
    using Cons.prems by (metis count_list.simps(2) le_SucI add_le_same_cancel1 le_add1 le_trans nat_le_linear not_one_le_zero)
  ultimately show ?case using Cons.IH by simp
qed

lemma tree_preorder_once:
  assumes tree: "distinct (map target edges)"
      and root: "x \<notin> target ` set edges"
      and pre: "preorder nodes edges d x = Some T"
  shows "distinct T \<and> set T = (edgeRel nodes edges)\<^sup>* `` {x}"
proof
  have sub: "set T \<subseteq> (edgeRel nodes edges)\<^sup>* `` {x}"
    using preorder_reachable(1) [OF pre] .
  have one: "\<And>z. (x, z) \<in> (edgeRel nodes edges)\<^sup>* \<Longrightarrow> count_list T z = 1"
    using tree_count_one [OF tree root pre] .
  have "\<And>y. count_list T y \<le> 1"
  proof -
    fix y show "count_list T y \<le> 1"
    proof (cases "y \<in> set T")
      case True
      then have "(x, y) \<in> (edgeRel nodes edges)\<^sup>*" using sub by auto
      then show ?thesis using one by simp
    next
      case False
      then show ?thesis by (simp add: count_list_0_iff)
    qed
  qed
  then show "distinct T" by (rule distinct_if_count_le_1)
  show "set T = (edgeRel nodes edges)\<^sup>* `` {x}"
  proof
    show "set T \<subseteq> (edgeRel nodes edges)\<^sup>* `` {x}" by (rule sub)
    show "(edgeRel nodes edges)\<^sup>* `` {x} \<subseteq> set T"
    proof
      fix z assume "z \<in> (edgeRel nodes edges)\<^sup>* `` {x}"
      then have "count_list T z = 1" using one by auto
      then show "z \<in> set T" by (metis count_list_0_iff zero_neq_one)
    qed
  qed
qed

lemma epath_subset: "epath nodes edges x q \<Longrightarrow> set q \<subseteq> set edges"
  by (induction rule: epath.induct) (auto simp: existing_def)

lemma epath_sources:
  "epath nodes edges x q \<Longrightarrow> e \<in> set q \<Longrightarrow> source e = x \<or> source e \<in> target ` set q"
proof (induction arbitrary: e rule: epath.induct)
  case epath_Nil
  then show ?case by simp
next
  case (epath_Cons q e')
  show ?case
  proof (cases "e = e'")
    case True
    then show ?thesis using epath_Cons(3) by (cases q) auto
  next
    case False
    then show ?thesis using epath_Cons by auto
  qed
qed

lemma epath_cur_fresh:
  assumes tree: "distinct (map target edges)" and root: "x \<notin> target ` set edges"
  shows "epath nodes edges x q \<Longrightarrow> cur x q \<notin> source ` set q"
proof (induction rule: epath.induct)
  case epath_Nil
  then show ?case by simp
next
  case (epath_Cons q e)
  have inj: "inj_on target (set edges)" using tree by (simp add: distinct_map)
  have eE: "e \<in> set edges" using epath_Cons(2) by (auto simp: existing_def)
  have qE: "set q \<subseteq> set edges" using epath_subset [OF epath_Cons(1)] .
  show ?case
  proof
    assume "cur x (e # q) \<in> source ` set (e # q)"
    then have "target e \<in> source ` set (e # q)" by (simp only: cur.simps)
    then obtain e' where e': "e' \<in> set (e # q)" "source e' = target e" by force
    show False
    proof (cases "e' = e")
      case True
      then have loop: "source e = target e" using e'(2) by simp
      show False
      proof (cases q)
        case Nil
        then show ?thesis using epath_Cons(3) loop eE root by auto
      next
        case (Cons h q')
        then have "target h = target e" using epath_Cons(3) loop by simp
        then have "h = e" using inj eE qE Cons by (auto dest: inj_onD)
        then have "cur x q \<in> source ` set q" using Cons epath_Cons(3) by auto
        then show ?thesis using epath_Cons.IH by simp
      qed
    next
      case False
      then have mem: "e' \<in> set q" using e'(1) by simp
      have "source e' = x \<or> source e' \<in> target ` set q"
        using epath_sources [OF epath_Cons(1) mem] .
      moreover have "source e' \<noteq> x" using e'(2) eE root by auto
      ultimately obtain e'' where e'': "e'' \<in> set q" "target e'' = source e'" by auto
      then have "target e'' = target e" using e'(2) by simp
      then have "e'' = e" using inj e''(1) eE qE by (auto dest: inj_onD)
      then have "source e \<in> source ` set q" using e''(1) by auto
      then show False using epath_Cons.IH epath_Cons(3) by simp
    qed
  qed
qed

lemma epath_distinct:
  assumes tree: "distinct (map target edges)" and root: "x \<notin> target ` set edges"
  shows "epath nodes edges x q \<Longrightarrow> distinct q"
proof (induction rule: epath.induct)
  case epath_Nil
  then show ?case by simp
next
  case (epath_Cons q e)
  have "cur x q \<notin> source ` set q" using epath_cur_fresh [OF tree root epath_Cons(1)] .
  then have "e \<notin> set q" using epath_Cons(3) by (metis imageI)
  then show ?case using epath_Cons.IH by simp
qed

lemma epath_length:
  assumes tree: "distinct (map target edges)" and root: "x \<notin> target ` set edges"
      and p: "epath nodes edges x q"
  shows "length q \<le> length edges"
proof -
  have "length q = card (set q)"
    using epath_distinct [OF tree root p] by (simp add: distinct_card)
  also have "\<dots> \<le> card (set edges)"
    using epath_subset [OF p] by (simp add: card_mono)
  also have "\<dots> \<le> length edges" by (rule card_length)
  finally show ?thesis .
qed

lemma preorderList_defined:
  "(\<And>y. y \<in> set ys \<Longrightarrow> preorder nodes edges d y \<noteq> None) \<Longrightarrow>
     preorderList nodes edges d ys \<noteq> None"
  by (induction ys) (auto split: option.splits)

lemma tree_preorder_defined:
  assumes tree: "distinct (map target edges)" and root: "x \<notin> target ` set edges"
  shows "epath nodes edges x q \<Longrightarrow> length edges \<le> length q + d \<Longrightarrow>
           preorder nodes edges (Suc d) (cur x q) \<noteq> None"
proof (induction d arbitrary: q)
  case 0
  have "successors nodes edges (cur x q) = []"
  proof (rule ccontr)
    assume "successors nodes edges (cur x q) \<noteq> []"
    then obtain e where e: "e \<in> set (existing nodes edges)" "source e = cur x q"
      by (auto simp: successors_def existing_def filter_empty_conv)
    have "epath nodes edges x (e # q)" using "0.prems"(1) e by (rule epath.epath_Cons)
    from epath_length [OF tree root this] "0.prems"(2) show False by simp
  qed
  then show ?case by simp
next
  case (Suc d)
  have "\<And>y. y \<in> set (successors nodes edges (cur x q)) \<Longrightarrow> preorder nodes edges (Suc d) y \<noteq> None"
  proof -
    fix y assume "y \<in> set (successors nodes edges (cur x q))"
    then obtain e where e: "e \<in> set (existing nodes edges)" "source e = cur x q" "target e = y"
      by (auto simp: successors_def existing_def)
    have p: "epath nodes edges x (e # q)" using Suc.prems(1) e(1,2) by (rule epath.epath_Cons)
    have "length edges \<le> length (e # q) + d" using Suc.prems(2) by simp
    from Suc.IH [OF p this] e(3) show "preorder nodes edges (Suc d) y \<noteq> None" by simp
  qed
  then have "preorderList nodes edges (Suc d) (successors nodes edges (cur x q)) \<noteq> None"
    by (rule preorderList_defined)
  then show ?case by (auto simp del: preorder.simps(2) simp add: preorder.simps(2) [of _ _ "Suc d"])
qed

lemma tree_preorder_root_defined:
  assumes tree: "distinct (map target edges)" and root: "x \<notin> target ` set edges"
  shows "preorder nodes edges (Suc (length edges)) x \<noteq> None"
  using tree_preorder_defined [OF tree root epath.epath_Nil, of "length edges" nodes] by simp

text \<open>
  Claim C5, as stated, fails: the walk keeps no record of the nodes it has visited, so a
  node that two edges lead to is executed once for each of them. In the diamond
  \<^verbatim>\<open>t \<rightarrow> a\<close>, \<^verbatim>\<open>t \<rightarrow> b\<close>, \<^verbatim>\<open>a \<rightarrow> d\<close>, \<^verbatim>\<open>b \<rightarrow> d\<close>, with one trigger and no condition or
  boolean node, the node \<^verbatim>\<open>d\<close> is executed twice.
\<close>

theorem diamond_executes_twice_counterexample:
  "triggerNodes
      [plainNode ''t'' ''trigger'', plainNode ''a'' ''action'', plainNode ''b'' ''action'',
       plainNode ''d'' ''action'']
      [plainEdge ''t'' ''a'' None, plainEdge ''t'' ''b'' None, plainEdge ''a'' ''d'' None,
       plainEdge ''b'' ''d'' None]
    = [plainNode ''t'' ''trigger'']
   \<and> unconditional
      [plainNode ''t'' ''trigger'', plainNode ''a'' ''action'', plainNode ''b'' ''action'',
       plainNode ''d'' ''action'']
   \<and> outcome
        (execute sampleEnv
          [plainNode ''t'' ''trigger'', plainNode ''a'' ''action'', plainNode ''b'' ''action'',
           plainNode ''d'' ''action'']
          [plainEdge ''t'' ''a'' None, plainEdge ''t'' ''b'' None, plainEdge ''a'' ''d'' None,
           plainEdge ''b'' ''d'' None]
          (Suc (Suc (Suc 0))))
      = Some (Inr (), [''t'', ''a'', ''d'', ''b'', ''d''])"
  by (simp add: run_defs unconditional_def)

text \<open>
  Claim C5, amended. For every graph with exactly one trigger node, no condition or
  boolean node, and at most one edge leading to each node: the run ends (a depth of one
  more than the number of edges is enough), and when it ends without an exception, the
  nodes were executed in the order of the depth-first walk that follows the edge list and
  completes the subtree of each edge's target before the next edge, and every node
  reachable from the trigger was executed exactly once (and no other node).
\<close>

theorem tree_walk_executes_once:
  assumes one: "triggerNodes nodes edges = [t]"
      and unc: "unconditional nodes"
      and tree: "distinct (map target edges)"
  shows "(\<exists>out. execute E nodes edges (Suc (length edges)) = Some out)
       \<and> (\<forall>fuel st. execute E nodes edges fuel = Some (Inr (), st) \<longrightarrow>
            preorder nodes edges fuel (nid t) = Some (startedNodes st)
            \<and> distinct (startedNodes st)
            \<and> set (startedNodes st) = (edgeRel nodes edges)\<^sup>* `` {nid t})"
proof (intro conjI allI impI)
  let ?st1 = "log_msg ''workflow'' ''Starting workflow execution'' Info VUndefined initialState"
  have S1: "startedNodes ?st1 = []"
    by (simp add: started_log) (simp add: startedNodes_def initialState_def)
  have "t \<in> set (triggerNodes nodes edges)" using one by simp
  then have tn: "t \<in> set nodes" and root: "nid t \<notin> target ` set edges"
    by (simp_all add: triggerNodes_iff)
  have "preorder nodes edges (Suc (length edges)) (nid t) \<noteq> None"
    using tree_preorder_root_defined [OF tree root] .
  then have "executeNode E nodes edges (Suc (length edges)) t ?st1 \<noteq> None"
    by (rule walk_defined(1))
  then show "\<exists>out. execute E nodes edges (Suc (length edges)) = Some out"
    using one by (auto simp: execute_def split: option.splits sum.splits)
  fix fuel st
  assume run: "execute E nodes edges fuel = Some (Inr (), st)"
  then obtain r s2 where X: "executeNode E nodes edges fuel t ?st1 = Some (Inr r, s2)"
    and st: "st = log_msg ''workflow'' ''Workflow execution completed'' Info VUndefined s2"
    using one by (auto simp: execute_def split: option.splits sum.splits)
  from walk_preorder(1) [OF X unc tn] obtain T where
    T: "preorder nodes edges fuel (nid t) = Some T" "startedNodes s2 = startedNodes ?st1 @ T"
    by blast
  have eq: "startedNodes st = T" using st T(2) S1 by (simp add: started_log)
  show "preorder nodes edges fuel (nid t) = Some (startedNodes st)" using T(1) eq by simp
  show "distinct (startedNodes st)"
    using tree_preorder_once [OF tree root T(1)] eq by simp
  show "set (startedNodes st) = (edgeRel nodes edges)\<^sup>* `` {nid t}"
    using tree_preorder_once [OF tree root T(1)] eq by simp
qed

theorem tree_walk_executes_once_witness:
  "triggerNodes
      [plainNode ''t'' ''trigger'', plainNode ''a'' ''action'', plainNode ''b'' ''action'',
       plainNode ''d'' ''action'']
      [plainEdge ''t'' ''a'' None, plainEdge ''a'' ''d'' None, plainEdge ''t'' ''b'' None]
    = [plainNode ''t'' ''trigger'']
   \<and> unconditional
      [plainNode ''t'' ''trigger'', plainNode ''a'' ''action'', plainNode ''b'' ''action'',
       plainNode ''d'' ''action'']
   \<and> distinct (map target
        [plainEdge ''t'' ''a'' None, plainEdge ''a'' ''d'' None, plainEdge ''t'' ''b'' None])
   \<and> outcome
        (execute sampleEnv
          [plainNode ''t'' ''trigger'', plainNode ''a'' ''action'', plainNode ''b'' ''action'',
           plainNode ''d'' ''action'']
          [plainEdge ''t'' ''a'' None, plainEdge ''a'' ''d'' None, plainEdge ''t'' ''b'' None]
          (Suc (Suc (Suc 0))))
      = Some (Inr (), [''t'', ''a'', ''d'', ''b''])
   \<and> (edgeRel
        [plainNode ''t'' ''trigger'', plainNode ''a'' ''action'', plainNode ''b'' ''action'',
         plainNode ''d'' ''action'']
        [plainEdge ''t'' ''a'' None, plainEdge ''a'' ''d'' None, plainEdge ''t'' ''b'' None])\<^sup>*
        `` {''t''} = {''t'', ''a'', ''d'', ''b''}"
proof -
  let ?ns = "[plainNode ''t'' ''trigger'', plainNode ''a'' ''action'', plainNode ''b'' ''action'',
       plainNode ''d'' ''action'']"
  let ?es = "[plainEdge ''t'' ''a'' None, plainEdge ''a'' ''d'' None, plainEdge ''t'' ''b'' None]"
  have h1: "triggerNodes ?ns ?es = [plainNode ''t'' ''trigger'']"
    by (simp add: triggerNodes_def plainNode_def plainEdge_def)
  have h2: "unconditional ?ns" by (simp add: unconditional_def plainNode_def)
  have h3: "distinct (map target ?es)" by (simp add: plainEdge_def)
  obtain st where run: "execute sampleEnv ?ns ?es (Suc (Suc (Suc 0))) = Some (Inr (), st)"
    and tr: "startedNodes st = [''t'', ''a'', ''d'', ''b'']"
    by (simp add: run_defs)
  from tree_walk_executes_once [OF h1 h2 h3, of sampleEnv] run
  have "set (startedNodes st) = (edgeRel ?ns ?es)\<^sup>* `` {nid (plainNode ''t'' ''trigger'')}"
    by blast
  then have "(edgeRel ?ns ?es)\<^sup>* `` {''t''} = {''t'', ''a'', ''d'', ''b''}"
    using tr by (simp add: plainNode_def)
  then show ?thesis using h1 h2 h3 run tr by (simp add: outcome_def)
qed

end
